theory Spec2Isabelle
  imports Complex_Main
begin

section \<open>The membership cache of \<open>extension.ts\<close>\<close>

text \<open>
  \<open>src/src/extension.ts\<close> keeps two module-level maps, \<open>CONFIG_CACHE\<close> (line 40, from a
  configuration path to the \<open>mtimeMs\<close> last seen for it) and \<open>CACHE\<close> (line 42, from a file
  path to \<open>{configPath, found}\<close>). The function \<open>fileIsListed\<close> (lines 44-70) reads and
  writes both. The maps are modelled as partial functions inside a record that is passed
  in and returned.

  \<open>mtimeMs\<close> is a JavaScript number holding milliseconds with a fractional part. The only
  operation the code performs on it is \<open>===\<close>, which on finite numbers is equality of their
  values, so a timestamp is a rational number here.
\<close>

type_synonym timestamp = rat

record cache_entry =
  entry_configPath :: string
  entry_found :: bool

record state =
  CONFIG_CACHE :: "string \<rightharpoonup> timestamp"
  CACHE :: "string \<rightharpoonup> cache_entry"

text \<open>Both maps are created empty (\<open>new Map()\<close>, lines 40 and 42).\<close>

definition initial_state :: state where
  "initial_state = \<lparr>CONFIG_CACHE = Map.empty, CACHE = Map.empty\<rparr>"

text \<open>
  What a call can fail with. \<open>IOError\<close> is the rejection of \<open>fs.stat\<close> (line 45),
  \<open>ToolUnavailable\<close> the rejection of \<open>getListFiles\<close> (line 18, \<open>tsc isn't found\<close>),
  \<open>TypeError\<close> the exception JavaScript raises on reading a property of \<open>undefined\<close>
  (line 133 when \<open>arr\<close> is empty). \<open>InvalidArgument\<close> is the name the specification gives
  to a rejected empty candidate list; no line of the source raises it.
\<close>

datatype error = IOError | ToolUnavailable | InvalidArgument | TypeError

text \<open>
  The world outside the function: \<open>fs.stat(p).mtimeMs\<close> (\<open>None\<close> when the promise is
  rejected), Node's \<open>path.dirname\<close>, and the outcome of \<open>getListFiles(cwd)\<close> (lines 14-37:
  it runs \<open>tsc --noEmit --listFiles\<close> in \<open>cwd\<close> and resolves to the listed paths that exist
  on disk, or rejects; \<open>None\<close> is the rejection).
\<close>

record env =
  stat_mtimeMs :: "string \<Rightarrow> timestamp option"
  dirname :: "string \<Rightarrow> string"
  getListFiles :: "string \<Rightarrow> string list option"

text \<open>
  The loop of lines 60-67 over the listed files, started with \<open>found = false\<close>. It carries
  the local \<open>found\<close> and the map \<open>CACHE\<close>.
\<close>

fun warm :: "string \<Rightarrow> string \<Rightarrow> string list \<Rightarrow> bool \<times> (string \<rightharpoonup> cache_entry)
    \<Rightarrow> bool \<times> (string \<rightharpoonup> cache_entry)" where
  "warm fileName configPath [] (found, cache) = (found, cache)"
| "warm fileName configPath (file # files) (found, cache) =
     (if file = fileName
      then warm fileName configPath files (True, cache)
      else warm fileName configPath files
             (found, cache(file \<mapsto> \<lparr>entry_configPath = configPath, entry_found = True\<rparr>)))"

text \<open>
  The result of one call: what the promise settles to, the maps afterwards, and how many
  times \<open>getListFiles\<close> was invoked during the call.
\<close>

record outcome =
  result :: "error + bool"
  after :: state
  listings :: nat

text \<open>
  The test of lines 46-54: there is an entry for \<open>fileName\<close>, its \<open>configPath\<close> is the one
  passed, and \<open>CONFIG_CACHE.get(configPath) === configStat.mtimeMs\<close> (\<open>undefined\<close>, for a
  missing key, is not \<open>===\<close> to any number). It yields the cached \<open>found\<close> on a hit.
\<close>

definition cache_lookup :: "state \<Rightarrow> string \<Rightarrow> string \<Rightarrow> timestamp \<Rightarrow> bool option" where
  "cache_lookup s fileName configPath mtimeMs =
     (case CACHE s fileName of
        None \<Rightarrow> None
      | Some cache \<Rightarrow>
          if entry_configPath cache = configPath
          then (case CONFIG_CACHE s configPath of
                  None \<Rightarrow> None
                | Some config_cache \<Rightarrow>
                    if config_cache = mtimeMs then Some (entry_found cache) else None)
          else None)"

definition fileIsListed :: "env \<Rightarrow> string \<Rightarrow> string \<Rightarrow> state \<Rightarrow> outcome" where
  "fileIsListed e fileName configPath s =
     (case stat_mtimeMs e configPath of
        None \<Rightarrow> \<lparr>result = Inl IOError, after = s, listings = 0\<rparr>
      | Some mtimeMs \<Rightarrow>
          (case cache_lookup s fileName configPath mtimeMs of
             Some b \<Rightarrow> \<lparr>result = Inr b, after = s, listings = 0\<rparr>
           | None \<Rightarrow>
               let s1 = s\<lparr>CONFIG_CACHE := (CONFIG_CACHE s)(configPath \<mapsto> mtimeMs)\<rparr>;
                   rootPath = dirname e configPath
               in (case getListFiles e rootPath of
                     None \<Rightarrow> \<lparr>result = Inl ToolUnavailable, after = s1, listings = 1\<rparr>
                   | Some files \<Rightarrow>
                       let (found, cache) = warm fileName configPath files (False, CACHE s1)
                       in \<lparr>result = Inr found,
                           after = s1\<lparr>CACHE := cache(fileName \<mapsto>
                                     \<lparr>entry_configPath = configPath, entry_found = found\<rparr>)\<rparr>,
                           listings = 1\<rparr>)))"

text \<open>
  A sequence of calls, one after the other (the extension awaits each call before the
  command handler returns), each with the world as it is at that moment.
\<close>

fun run :: "(env \<times> string \<times> string) list \<Rightarrow> state \<Rightarrow> state" where
  "run [] s = s"
| "run ((e, fileName, configPath) # calls) s =
     run calls (after (fileIsListed e fileName configPath s))"

definition queried :: "(env \<times> string \<times> string) list \<Rightarrow> string set" where
  "queried calls = (\<lambda>(e, fileName, configPath). fileName) ` set calls"

section \<open>The path matcher of \<open>extension.ts\<close>\<close>

text \<open>
  \<open>getMostSimilarPath\<close> (lines 105-134) calls \<open>path.extname\<close> of Node's standard library,
  which is not part of the repository and differs between platforms; the function takes
  it as the parameter \<open>extname\<close>. \<open>removeExt\<close> is line 106: \<open>substring(0, n)\<close> keeps the
  first \<open>n\<close> characters and treats a negative \<open>n\<close> as \<open>0\<close>, as truncating subtraction on
  \<open>nat\<close> does.
\<close>

definition removeExt :: "(string \<Rightarrow> string) \<Rightarrow> string \<Rightarrow> string" where
  "removeExt extname p = take (length p - length (extname p)) p"

text \<open>
  The inner loop of lines 113-120, with its counter \<open>i\<close> and the running \<open>score\<close>; the
  \<open>break\<close> returns the score reached so far.
\<close>

function score_loop :: "string \<Rightarrow> string \<Rightarrow> nat \<Rightarrow> nat \<Rightarrow> nat \<Rightarrow> nat" where
  "score_loop pBase cBase len i score =
     (if i < len
      then (if pBase ! (length pBase - 1 - i) = cBase ! (length cBase - 1 - i)
            then score_loop pBase cBase len (i + 1) (score + 1)
            else score)
      else score)"
  by pat_completeness auto
termination
  by (relation "measure (\<lambda>(pBase, cBase, len, i, score). len - i)") auto

declare score_loop.simps [simp del]

text \<open>The body of the outer loop, lines 111-121: the score given to one candidate.\<close>

definition candidate_score :: "(string \<Rightarrow> string) \<Rightarrow> string \<Rightarrow> string \<Rightarrow> nat" where
  "candidate_score extname p c =
     (let pBase = removeExt extname p;
          cBase = removeExt extname c;
          len = min (length pBase) (length cBase)
      in score_loop pBase cBase len 0 0)"

record scored =
  cand_path :: string
  cand_score :: nat

text \<open>The comparison function of lines 124-131.\<close>

definition compare_scored :: "scored \<Rightarrow> scored \<Rightarrow> int" where
  "compare_scored lhs rhs =
     (if cand_score rhs < cand_score lhs then - 1
      else if cand_score rhs > cand_score lhs then 1
      else 0)"

text \<open>
  \<open>Array.prototype.sort\<close> with a comparison function. ECMAScript (2019 and later)
  requires the sort to be stable; for a comparison function that is a consistent
  ordering this fixes the result, whatever algorithm the engine uses. The model is a
  stable insertion sort: an element goes in front of the first element it does not
  compare greater than, so it stays ahead of the later elements it compares equal to.
\<close>

fun insert_sorted :: "('a \<Rightarrow> 'a \<Rightarrow> int) \<Rightarrow> 'a \<Rightarrow> 'a list \<Rightarrow> 'a list" where
  "insert_sorted cmp x [] = [x]"
| "insert_sorted cmp x (y # ys) =
     (if cmp x y \<le> 0 then x # y # ys else y # insert_sorted cmp x ys)"

fun array_sort :: "('a \<Rightarrow> 'a \<Rightarrow> int) \<Rightarrow> 'a list \<Rightarrow> 'a list" where
  "array_sort cmp [] = []"
| "array_sort cmp (x # xs) = insert_sorted cmp x (array_sort cmp xs)"

text \<open>
  Lines 105-134. \<open>arr[0]\<close> of an empty array is \<open>undefined\<close>, and reading \<open>.path\<close> of it
  throws a \<open>TypeError\<close>.
\<close>

definition getMostSimilarPath :: "(string \<Rightarrow> string) \<Rightarrow> string \<Rightarrow> string list \<Rightarrow> error + string" where
  "getMostSimilarPath extname p ps =
     (let arr = map (\<lambda>c. \<lparr>cand_path = c, cand_score = candidate_score extname p c\<rparr>) ps
      in (case array_sort compare_scored arr of
            [] \<Rightarrow> Inl TypeError
          | a # _ \<Rightarrow> Inr (cand_path a)))"

text \<open>
  The suffix-alignment score in the specification's words: walking both strings from
  their last character backward, the number of aligned positions that agree before the
  first one that differs.
\<close>

definition suffix_alignment :: "string \<Rightarrow> string \<Rightarrow> nat" where
  "suffix_alignment x y = length (takeWhile (\<lambda>(a, b). a = b) (zip (rev x) (rev y)))"

subsection \<open>Node's \<open>path.extname\<close>, POSIX flavour\<close>

text \<open>
  For the concrete paths of the specification's examples the library function has to be
  evaluated. \<open>posix_extname\<close> follows the loop of Node's \<open>path.posix.extname\<close>: it walks
  the path from its last character backward, skips trailing slashes, stops at the slash
  in front of the last path component, and remembers the right-most dot (\<open>startDot\<close>),
  the end of the component (\<open>end\<close>) and whether anything other than dots precedes that
  dot (\<open>preDotState\<close>). Indices are \<open>int\<close> because the library uses \<open>-1\<close> for "not seen".
\<close>

record ext_state =
  startDot :: int
  startPart :: int
  end_pos :: int
  matchedSlash :: bool
  preDotState :: int

fun extname_loop :: "string \<Rightarrow> nat \<Rightarrow> ext_state \<Rightarrow> ext_state" where
  "extname_loop path 0 st = st"
| "extname_loop path (Suc i) st =
     (if path ! i = CHR ''/''
      then (if \<not> matchedSlash st
            then st\<lparr>startPart := int i + 1\<rparr>
            else extname_loop path i st)
      else
        (let st1 = (if end_pos st = - 1
                    then st\<lparr>end_pos := int i + 1, matchedSlash := False\<rparr>
                    else st);
             st2 = (if path ! i = CHR ''.''
                    then (if startDot st1 = - 1 then st1\<lparr>startDot := int i\<rparr>
                          else if preDotState st1 \<noteq> 1 then st1\<lparr>preDotState := 1\<rparr>
                          else st1)
                    else if startDot st1 \<noteq> - 1 then st1\<lparr>preDotState := - 1\<rparr>
                    else st1)
         in extname_loop path i st2))"

definition posix_extname :: "string \<Rightarrow> string" where
  "posix_extname path =
     (let st = extname_loop path (length path)
                 \<lparr>startDot = - 1, startPart = 0, end_pos = - 1,
                  matchedSlash = True, preDotState = 0\<rparr>
      in if startDot st = - 1 \<or> end_pos st = - 1 \<or> preDotState st = 0
            \<or> (preDotState st = 1 \<and> startDot st = end_pos st - 1
                \<and> startDot st = startPart st + 1)
         then []
         else take (nat (end_pos st) - nat (startDot st)) (drop (nat (startDot st)) path))"

section \<open>A world for the examples\<close>

text \<open>
  One project in \<open>/p\<close>: its \<open>tsconfig.json\<close> has the modification time \<open>mtime\<close>, and
  listing the files of \<open>/p\<close> gives \<open>listing\<close> (\<open>None\<close> when \<open>tsc\<close> cannot be run). Any other
  path cannot be read.
\<close>

definition world :: "timestamp \<Rightarrow> string list option \<Rightarrow> env" where
  "world mtime listing =
     \<lparr>stat_mtimeMs = (\<lambda>p. if p = ''/p/tsconfig.json'' then Some mtime else None),
      dirname = (\<lambda>p. if p = ''/p/tsconfig.json'' then ''/p'' else ''.''),
      getListFiles = (\<lambda>cwd. if cwd = ''/p'' then listing else None)\<rparr>"

section \<open>Facts about the cache\<close>

text \<open>What the loop of lines 60-67 leaves in \<open>found\<close> and in \<open>CACHE\<close>.\<close>

lemma warm_found:
  "fst (warm fileName configPath files (found, cache)) = (found \<or> fileName \<in> set files)"
  by (induction files arbitrary: found cache) auto

lemma warm_cache:
  "snd (warm fileName configPath files (found, cache)) k =
     (if k \<in> set files \<and> k \<noteq> fileName
      then Some \<lparr>entry_configPath = configPath, entry_found = True\<rparr>
      else cache k)"
  by (induction files arbitrary: found cache) auto

text \<open>The test of lines 46-54, as a condition on the two maps.\<close>

lemma cache_lookup_Some_iff:
  "cache_lookup s fileName configPath t = Some b \<longleftrightarrow>
     (\<exists>entry. CACHE s fileName = Some entry \<and> entry_configPath entry = configPath
        \<and> entry_found entry = b) \<and> CONFIG_CACHE s configPath = Some t"
  by (auto simp: cache_lookup_def split: option.splits)

lemma cache_lookup_None_iff:
  "cache_lookup s fileName configPath t = None \<longleftrightarrow>
     (\<forall>entry. CACHE s fileName = Some entry \<longrightarrow> entry_configPath entry \<noteq> configPath)
     \<or> CONFIG_CACHE s configPath \<noteq> Some t"
  by (auto simp: cache_lookup_def split: option.splits)

lemma fileIsListed_stat_fails:
  "stat_mtimeMs e configPath = None \<Longrightarrow>
   fileIsListed e fileName configPath s = \<lparr>result = Inl IOError, after = s, listings = 0\<rparr>"
  by (simp add: fileIsListed_def)

lemma fileIsListed_hit:
  "stat_mtimeMs e configPath = Some t \<Longrightarrow> cache_lookup s fileName configPath t = Some b \<Longrightarrow>
   fileIsListed e fileName configPath s = \<lparr>result = Inr b, after = s, listings = 0\<rparr>"
  by (simp add: fileIsListed_def)

lemma fileIsListed_miss_fails:
  "stat_mtimeMs e configPath = Some t \<Longrightarrow> cache_lookup s fileName configPath t = None \<Longrightarrow>
   getListFiles e (dirname e configPath) = None \<Longrightarrow>
   fileIsListed e fileName configPath s =
     \<lparr>result = Inl ToolUnavailable,
      after = s\<lparr>CONFIG_CACHE := (CONFIG_CACHE s)(configPath \<mapsto> t)\<rparr>, listings = 1\<rparr>"
  by (simp add: fileIsListed_def)

lemma fileIsListed_miss_lists:
  assumes "stat_mtimeMs e configPath = Some t" and "cache_lookup s fileName configPath t = None"
    and "getListFiles e (dirname e configPath) = Some files"
  shows "fileIsListed e fileName configPath s =
     \<lparr>result = Inr (fileName \<in> set files),
      after = \<lparr>CONFIG_CACHE = (CONFIG_CACHE s)(configPath \<mapsto> t),
               CACHE = (\<lambda>k. if k = fileName
                             then Some \<lparr>entry_configPath = configPath,
                                        entry_found = fileName \<in> set files\<rparr>
                             else if k \<in> set files
                             then Some \<lparr>entry_configPath = configPath, entry_found = True\<rparr>
                             else CACHE s k)\<rparr>,
      listings = 1\<rparr>"
proof -
  obtain found cache where w: "warm fileName configPath files (False, CACHE s) = (found, cache)"
    by (cases "warm fileName configPath files (False, CACHE s)")
  have f: "found = (fileName \<in> set files)"
    using warm_found [of fileName configPath files False "CACHE s"] w by simp
  have c: "cache k = (if k \<in> set files \<and> k \<noteq> fileName
      then Some \<lparr>entry_configPath = configPath, entry_found = True\<rparr>
      else CACHE s k)" for k
    using warm_cache [of fileName configPath files False "CACHE s" k] w by simp
  have "cache(fileName \<mapsto> \<lparr>entry_configPath = configPath, entry_found = found\<rparr>)
      = (\<lambda>k. if k = fileName
                             then Some \<lparr>entry_configPath = configPath,
                                        entry_found = fileName \<in> set files\<rparr>
                             else if k \<in> set files
                             then Some \<lparr>entry_configPath = configPath, entry_found = True\<rparr>
                             else CACHE s k)"
    by (rule ext) (simp add: c f)
  then show ?thesis
    using assms w f by (simp add: fileIsListed_def)
qed

lemma CACHE_false_entries:
  assumes "CACHE (after (fileIsListed e fileName configPath s)) k = Some entry"
    and "\<not> entry_found entry" and "k \<noteq> fileName"
  shows "CACHE s k = Some entry"
proof (cases "stat_mtimeMs e configPath")
  case None
  then show ?thesis using assms by (simp add: fileIsListed_stat_fails)
next
  case (Some t)
  show ?thesis
  proof (cases "cache_lookup s fileName configPath t")
    case (Some b)
    with \<open>stat_mtimeMs e configPath = Some t\<close> show ?thesis
      using assms by (simp add: fileIsListed_hit)
  next
    case None
    show ?thesis
    proof (cases "getListFiles e (dirname e configPath)")
      case None
      with \<open>stat_mtimeMs e configPath = Some t\<close> \<open>cache_lookup s fileName configPath t = None\<close>
      show ?thesis using assms by (simp add: fileIsListed_miss_fails)
    next
      case (Some files)
      with \<open>stat_mtimeMs e configPath = Some t\<close> \<open>cache_lookup s fileName configPath t = None\<close>
      show ?thesis using assms by (auto simp: fileIsListed_miss_lists split: if_splits)
    qed
  qed
qed

lemma run_false_entries:
  assumes "\<forall>k entry. CACHE s k = Some entry \<and> \<not> entry_found entry \<longrightarrow> k \<in> Q"
    and "CACHE (run calls s) k = Some entry" and "\<not> entry_found entry"
  shows "k \<in> Q \<union> queried calls"
  using assms
proof (induction calls arbitrary: s Q)
  case Nil
  then show ?case by simp
next
  case (Cons call calls)
  obtain e fileName configPath where call: "call = (e, fileName, configPath)"
    by (cases call)
  let ?s1 = "after (fileIsListed e fileName configPath s)"
  have "\<forall>k entry. CACHE ?s1 k = Some entry \<and> \<not> entry_found entry \<longrightarrow> k \<in> insert fileName Q"
    using Cons.prems(1) CACHE_false_entries [of e fileName configPath s] by blast
  from Cons.IH [OF this] Cons.prems(2,3)
  have "k \<in> insert fileName Q \<union> queried calls" by (simp add: call)
  then show ?case by (auto simp: call queried_def)
qed

lemma fileIsListed_miss_listings:
  assumes "stat_mtimeMs e configPath = Some t" and "cache_lookup s fileName configPath t = None"
  shows "listings (fileIsListed e fileName configPath s) = 1"
proof (cases "getListFiles e (dirname e configPath)")
  case None
  then show ?thesis using assms by (simp add: fileIsListed_miss_fails)
next
  case (Some files)
  then show ?thesis using assms by (simp add: fileIsListed_miss_lists)
qed

text \<open>A call that succeeds leaves an entry for its file under its configuration.\<close>

lemma fileIsListed_success_entry:
  assumes "result (fileIsListed e fileName configPath s) = Inr b"
  shows "\<exists>entry. CACHE (after (fileIsListed e fileName configPath s)) fileName = Some entry
           \<and> entry_configPath entry = configPath \<and> entry_found entry = b"
proof (cases "stat_mtimeMs e configPath")
  case None
  then show ?thesis using assms by (simp add: fileIsListed_stat_fails)
next
  case (Some t)
  note st = this
  show ?thesis
  proof (cases "cache_lookup s fileName configPath t")
    case (Some b')
    then show ?thesis
      using assms st by (auto simp: fileIsListed_hit cache_lookup_Some_iff)
  next
    case None
    note miss = this
    show ?thesis
    proof (cases "getListFiles e (dirname e configPath)")
      case None
      then show ?thesis using assms st miss by (simp add: fileIsListed_miss_fails)
    next
      case (Some files)
      then show ?thesis using assms st miss by (auto simp: fileIsListed_miss_lists)
    qed
  qed
qed

section \<open>Claims about the cache\<close>

text \<open>
  Claim C1. When a call of \<open>fileIsListed\<close> for a file and a configuration has succeeded
  with the answer \<open>b\<close>, and the next call for the same file and configuration finds the
  configuration's modification time equal to the one stored for it, that call returns
  \<open>b\<close>, which is the \<open>found\<close> field of the file's entry, changes nothing and does not
  invoke \<open>getListFiles\<close>.
\<close>

theorem second_call_is_cache_hit:
  assumes "result (fileIsListed e1 fileName configPath s) = Inr b"
    and "CONFIG_CACHE (after (fileIsListed e1 fileName configPath s)) configPath = Some t"
    and "stat_mtimeMs e2 configPath = Some t"
  shows "fileIsListed e2 fileName configPath (after (fileIsListed e1 fileName configPath s)) =
           \<lparr>result = Inr b, after = after (fileIsListed e1 fileName configPath s), listings = 0\<rparr>
       \<and> (\<exists>entry. CACHE (after (fileIsListed e1 fileName configPath s)) fileName = Some entry
             \<and> entry_configPath entry = configPath \<and> entry_found entry = b)"
proof -
  let ?s1 = "after (fileIsListed e1 fileName configPath s)"
  note entry = fileIsListed_success_entry [OF assms(1)]
  then have "cache_lookup ?s1 fileName configPath t = Some b"
    using assms(2) by (simp add: cache_lookup_Some_iff)
  from fileIsListed_hit [OF assms(3) this] entry show ?thesis by blast
qed

theorem second_call_is_cache_hit_witness:
  "result (fileIsListed (world 1000 (Some [''/p/a.ts'', ''/p/b.ts''])) ''/p/b.ts''
            ''/p/tsconfig.json'' initial_state) = Inr True
   \<and> CONFIG_CACHE (after (fileIsListed (world 1000 (Some [''/p/a.ts'', ''/p/b.ts''])) ''/p/b.ts''
            ''/p/tsconfig.json'' initial_state)) ''/p/tsconfig.json'' = Some 1000
   \<and> stat_mtimeMs (world 1000 None) ''/p/tsconfig.json'' = Some 1000
   \<and> fileIsListed (world 1000 None) ''/p/b.ts'' ''/p/tsconfig.json''
        (after (fileIsListed (world 1000 (Some [''/p/a.ts'', ''/p/b.ts''])) ''/p/b.ts''
            ''/p/tsconfig.json'' initial_state)) =
      \<lparr>result = Inr True,
       after = after (fileIsListed (world 1000 (Some [''/p/a.ts'', ''/p/b.ts''])) ''/p/b.ts''
            ''/p/tsconfig.json'' initial_state),
       listings = 0\<rparr>"
proof -
  let ?first = "fileIsListed (world 1000 (Some [''/p/a.ts'', ''/p/b.ts''])) ''/p/b.ts''
            ''/p/tsconfig.json'' initial_state"
  have h1: "result ?first = Inr True"
    by (simp add: fileIsListed_def world_def initial_state_def cache_lookup_def)
  have h2: "CONFIG_CACHE (after ?first) ''/p/tsconfig.json'' = Some 1000"
    by (simp add: fileIsListed_def world_def initial_state_def cache_lookup_def)
  have h3: "stat_mtimeMs (world 1000 None) ''/p/tsconfig.json'' = Some 1000"
    by (simp add: world_def)
  from second_call_is_cache_hit [OF h1 h2 h3] h1 h2 h3 show ?thesis by blast
qed

text \<open>
  Claim C2, on the input where it fails. The file \<open>/p/b.ts\<close> was answered "not listed"
  when the configuration had modification time 1000. The configuration then changes
  (modification time 2000) and the next call cannot run \<open>tsc\<close>: it fails with
  \<open>ToolUnavailable\<close> and leaves \<open>CACHE\<close> as it was, but line 56 has already stored 2000
  in \<open>CONFIG_CACHE\<close>, so the maps are not as they were before the call. The entry of
  \<open>/p/b.ts\<close>, computed for the old configuration, now passes the test of lines 46-54:
  a third call answers "not listed" from the cache without listing, although the listing
  would now contain the file.
\<close>

theorem failed_listing_overwrites_timestamp:
  "result (fileIsListed (world 2000 None) ''/p/b.ts'' ''/p/tsconfig.json''
     (after (fileIsListed (world 1000 (Some [''/p/a.ts''])) ''/p/b.ts'' ''/p/tsconfig.json''
        initial_state))) = Inl ToolUnavailable
   \<and> CACHE (after (fileIsListed (world 2000 None) ''/p/b.ts'' ''/p/tsconfig.json''
     (after (fileIsListed (world 1000 (Some [''/p/a.ts''])) ''/p/b.ts'' ''/p/tsconfig.json''
        initial_state))))
     = CACHE (after (fileIsListed (world 1000 (Some [''/p/a.ts''])) ''/p/b.ts''
        ''/p/tsconfig.json'' initial_state))
   \<and> CONFIG_CACHE (after (fileIsListed (world 1000 (Some [''/p/a.ts''])) ''/p/b.ts''
        ''/p/tsconfig.json'' initial_state)) ''/p/tsconfig.json'' = Some 1000
   \<and> CONFIG_CACHE (after (fileIsListed (world 2000 None) ''/p/b.ts'' ''/p/tsconfig.json''
     (after (fileIsListed (world 1000 (Some [''/p/a.ts''])) ''/p/b.ts'' ''/p/tsconfig.json''
        initial_state)))) ''/p/tsconfig.json'' = Some 2000
   \<and> after (fileIsListed (world 2000 None) ''/p/b.ts'' ''/p/tsconfig.json''
     (after (fileIsListed (world 1000 (Some [''/p/a.ts''])) ''/p/b.ts'' ''/p/tsconfig.json''
        initial_state)))
     \<noteq> after (fileIsListed (world 1000 (Some [''/p/a.ts''])) ''/p/b.ts''
        ''/p/tsconfig.json'' initial_state)
   \<and> result (fileIsListed (world 2000 (Some [''/p/a.ts'', ''/p/b.ts''])) ''/p/b.ts''
        ''/p/tsconfig.json''
        (after (fileIsListed (world 2000 None) ''/p/b.ts'' ''/p/tsconfig.json''
          (after (fileIsListed (world 1000 (Some [''/p/a.ts''])) ''/p/b.ts''
             ''/p/tsconfig.json'' initial_state))))) = Inr False
   \<and> listings (fileIsListed (world 2000 (Some [''/p/a.ts'', ''/p/b.ts''])) ''/p/b.ts''
        ''/p/tsconfig.json''
        (after (fileIsListed (world 2000 None) ''/p/b.ts'' ''/p/tsconfig.json''
          (after (fileIsListed (world 1000 (Some [''/p/a.ts''])) ''/p/b.ts''
             ''/p/tsconfig.json'' initial_state))))) = 0"
proof -
  let ?s1 = "after (fileIsListed (world 1000 (Some [''/p/a.ts''])) ''/p/b.ts''
        ''/p/tsconfig.json'' initial_state)"
  let ?s2 = "after (fileIsListed (world 2000 None) ''/p/b.ts'' ''/p/tsconfig.json'' ?s1)"
  let ?entries = "[''/p/a.ts'' \<mapsto> \<lparr>entry_configPath = ''/p/tsconfig.json'', entry_found = True\<rparr>,
                    ''/p/b.ts'' \<mapsto> \<lparr>entry_configPath = ''/p/tsconfig.json'', entry_found = False\<rparr>]"
  have s1: "?s1 = \<lparr>CONFIG_CACHE = [''/p/tsconfig.json'' \<mapsto> 1000], CACHE = ?entries\<rparr>"
    by (simp add: fileIsListed_def world_def initial_state_def cache_lookup_def)
  have second: "fileIsListed (world 2000 None) ''/p/b.ts'' ''/p/tsconfig.json'' ?s1 =
      \<lparr>result = Inl ToolUnavailable,
       after = \<lparr>CONFIG_CACHE = [''/p/tsconfig.json'' \<mapsto> 2000], CACHE = ?entries\<rparr>,
       listings = 1\<rparr>"
    unfolding s1 by (simp add: fileIsListed_def world_def cache_lookup_def)
  have s2: "?s2 = \<lparr>CONFIG_CACHE = [''/p/tsconfig.json'' \<mapsto> 2000], CACHE = ?entries\<rparr>"
    by (simp add: second)
  have third: "fileIsListed (world 2000 (Some [''/p/a.ts'', ''/p/b.ts''])) ''/p/b.ts''
        ''/p/tsconfig.json'' ?s2 = \<lparr>result = Inr False, after = ?s2, listings = 0\<rparr>"
    unfolding s2 by (simp add: fileIsListed_def world_def cache_lookup_def)
  have "CONFIG_CACHE ?s2 ''/p/tsconfig.json'' \<noteq> CONFIG_CACHE ?s1 ''/p/tsconfig.json''"
    unfolding s2 unfolding s1 by simp
  then have differ: "?s2 \<noteq> ?s1" by metis
  have "result (fileIsListed (world 2000 None) ''/p/b.ts'' ''/p/tsconfig.json'' ?s1)
         = Inl ToolUnavailable"
    by (simp add: second)
  moreover have "CACHE ?s2 = CACHE ?s1" unfolding s2 unfolding s1 by simp
  moreover have "CONFIG_CACHE ?s1 ''/p/tsconfig.json'' = Some 1000" unfolding s1 by simp
  moreover have "CONFIG_CACHE ?s2 ''/p/tsconfig.json'' = Some 2000" unfolding s2 by simp
  moreover have "result (fileIsListed (world 2000 (Some [''/p/a.ts'', ''/p/b.ts''])) ''/p/b.ts''
        ''/p/tsconfig.json'' ?s2) = Inr False"
    by (simp add: third)
  moreover have "listings (fileIsListed (world 2000 (Some [''/p/a.ts'', ''/p/b.ts''])) ''/p/b.ts''
        ''/p/tsconfig.json'' ?s2) = 0"
    by (simp add: third)
  ultimately show ?thesis using differ by blast
qed

text \<open>
  Claim C3. On the path of lines 56-69 (the test of lines 46-54 fails) with a listing
  that succeeds, the call returns whether the file is among the listed paths, and the
  file's own entry holds that same boolean.
\<close>

theorem miss_returns_membership:
  assumes "stat_mtimeMs e configPath = Some t"
    and "cache_lookup s fileName configPath t = None"
    and "getListFiles e (dirname e configPath) = Some files"
  shows "result (fileIsListed e fileName configPath s) = Inr (fileName \<in> set files)
       \<and> CACHE (after (fileIsListed e fileName configPath s)) fileName =
           Some \<lparr>entry_configPath = configPath, entry_found = fileName \<in> set files\<rparr>"
  using assms by (simp add: fileIsListed_miss_lists)

theorem miss_returns_membership_witness:
  "stat_mtimeMs (world 1000 (Some [''/p/a.ts''])) ''/p/tsconfig.json'' = Some 1000
   \<and> cache_lookup initial_state ''/p/b.ts'' ''/p/tsconfig.json'' 1000 = None
   \<and> getListFiles (world 1000 (Some [''/p/a.ts'']))
        (dirname (world 1000 (Some [''/p/a.ts''])) ''/p/tsconfig.json'') = Some [''/p/a.ts'']
   \<and> result (fileIsListed (world 1000 (Some [''/p/a.ts''])) ''/p/b.ts'' ''/p/tsconfig.json''
        initial_state) = Inr False
   \<and> CACHE (after (fileIsListed (world 1000 (Some [''/p/a.ts''])) ''/p/b.ts''
        ''/p/tsconfig.json'' initial_state)) ''/p/b.ts'' =
        Some \<lparr>entry_configPath = ''/p/tsconfig.json'', entry_found = False\<rparr>"
proof -
  have h1: "stat_mtimeMs (world 1000 (Some [''/p/a.ts''])) ''/p/tsconfig.json'' = Some 1000"
    by (simp add: world_def)
  have h2: "cache_lookup initial_state ''/p/b.ts'' ''/p/tsconfig.json'' 1000 = None"
    by (simp add: cache_lookup_def initial_state_def)
  have h3: "getListFiles (world 1000 (Some [''/p/a.ts'']))
        (dirname (world 1000 (Some [''/p/a.ts''])) ''/p/tsconfig.json'') = Some [''/p/a.ts'']"
    by (simp add: world_def)
  from miss_returns_membership [OF h1 h2 h3] h1 h2 h3 show ?thesis by simp
qed

text \<open>
  Claim C4. A call for \<open>B\<close> that goes to the listing and obtains \<open>[A, B, D]\<close> returns
  true, with one listing. Every listed path other than \<open>B\<close> then has an entry
  \<open>{configPath, found: true}\<close>, so a following call for \<open>A\<close>, with the configuration's
  modification time unchanged, returns true, changes nothing and does not list.
\<close>

theorem listing_warms_other_files:
  assumes "stat_mtimeMs e1 C = Some t"
    and "cache_lookup s B C t = None"
    and "getListFiles e1 (dirname e1 C) = Some [A, B, D]"
    and "stat_mtimeMs e2 C = Some t"
  shows "result (fileIsListed e1 B C s) = Inr True
       \<and> listings (fileIsListed e1 B C s) = 1
       \<and> fileIsListed e2 A C (after (fileIsListed e1 B C s)) =
           \<lparr>result = Inr True, after = after (fileIsListed e1 B C s), listings = 0\<rparr>
       \<and> (\<forall>k \<in> set [A, B, D]. k \<noteq> B \<longrightarrow>
            CACHE (after (fileIsListed e1 B C s)) k =
              Some \<lparr>entry_configPath = C, entry_found = True\<rparr>)"
proof -
  let ?s1 = "after (fileIsListed e1 B C s)"
  note first = fileIsListed_miss_lists [OF assms(1,2,3)]
  have "cache_lookup ?s1 A C t = Some True"
    by (simp add: first cache_lookup_Some_iff)
  from fileIsListed_hit [OF assms(4) this]
  have "fileIsListed e2 A C ?s1 = \<lparr>result = Inr True, after = ?s1, listings = 0\<rparr>" .
  moreover have "result (fileIsListed e1 B C s) = Inr True" "listings (fileIsListed e1 B C s) = 1"
    by (simp_all add: first)
  moreover have "\<forall>k \<in> set [A, B, D]. k \<noteq> B \<longrightarrow>
            CACHE ?s1 k = Some \<lparr>entry_configPath = C, entry_found = True\<rparr>"
    by (simp add: first)
  ultimately show ?thesis by blast
qed

theorem listing_warms_other_files_witness:
  "stat_mtimeMs (world 1000 (Some [''/p/a.ts'', ''/p/b.ts'', ''/p/d.ts''])) ''/p/tsconfig.json''
     = Some 1000
   \<and> cache_lookup initial_state ''/p/b.ts'' ''/p/tsconfig.json'' 1000 = None
   \<and> getListFiles (world 1000 (Some [''/p/a.ts'', ''/p/b.ts'', ''/p/d.ts'']))
        (dirname (world 1000 (Some [''/p/a.ts'', ''/p/b.ts'', ''/p/d.ts''])) ''/p/tsconfig.json'')
     = Some [''/p/a.ts'', ''/p/b.ts'', ''/p/d.ts'']
   \<and> stat_mtimeMs (world 1000 None) ''/p/tsconfig.json'' = Some 1000
   \<and> result (fileIsListed (world 1000 (Some [''/p/a.ts'', ''/p/b.ts'', ''/p/d.ts'']))
        ''/p/b.ts'' ''/p/tsconfig.json'' initial_state) = Inr True
   \<and> result (fileIsListed (world 1000 None) ''/p/a.ts'' ''/p/tsconfig.json''
        (after (fileIsListed (world 1000 (Some [''/p/a.ts'', ''/p/b.ts'', ''/p/d.ts'']))
           ''/p/b.ts'' ''/p/tsconfig.json'' initial_state))) = Inr True
   \<and> listings (fileIsListed (world 1000 None) ''/p/a.ts'' ''/p/tsconfig.json''
        (after (fileIsListed (world 1000 (Some [''/p/a.ts'', ''/p/b.ts'', ''/p/d.ts'']))
           ''/p/b.ts'' ''/p/tsconfig.json'' initial_state))) = 0
   \<and> CACHE (after (fileIsListed (world 1000 (Some [''/p/a.ts'', ''/p/b.ts'', ''/p/d.ts'']))
           ''/p/b.ts'' ''/p/tsconfig.json'' initial_state)) ''/p/d.ts''
     = Some \<lparr>entry_configPath = ''/p/tsconfig.json'', entry_found = True\<rparr>"
proof -
  let ?e1 = "world 1000 (Some [''/p/a.ts'', ''/p/b.ts'', ''/p/d.ts''])"
  have h1: "stat_mtimeMs ?e1 ''/p/tsconfig.json'' = Some 1000"
    by (simp add: world_def)
  have h2: "cache_lookup initial_state ''/p/b.ts'' ''/p/tsconfig.json'' 1000 = None"
    by (simp add: cache_lookup_def initial_state_def)
  have h3: "getListFiles ?e1 (dirname ?e1 ''/p/tsconfig.json'')
              = Some [''/p/a.ts'', ''/p/b.ts'', ''/p/d.ts'']"
    by (simp add: world_def)
  have h4: "stat_mtimeMs (world 1000 None) ''/p/tsconfig.json'' = Some 1000"
    by (simp add: world_def)
  from listing_warms_other_files [OF h1 h2 h3 h4] h1 h2 h3 h4 show ?thesis by simp
qed

text \<open>
  Claim C5. When the configuration's current modification time is not the one stored for
  it, or the file has no entry under that configuration, the call invokes \<open>getListFiles\<close>
  exactly once, on the directory of the configuration, and its outcome is the outcome of
  that one invocation: if the listing is rejected the call fails with \<open>ToolUnavailable\<close>
  (the new timestamp already stored); if it resolves to \<open>files\<close> the call returns whether
  the file is among \<open>files\<close>, with the timestamp stored, the file's entry set to that
  boolean and every other listed path entered as found.
\<close>

theorem miss_lists_exactly_once:
  assumes "stat_mtimeMs e configPath = Some t"
    and "CONFIG_CACHE s configPath \<noteq> Some t
         \<or> (\<forall>entry. CACHE s fileName = Some entry \<longrightarrow> entry_configPath entry \<noteq> configPath)"
  shows "listings (fileIsListed e fileName configPath s) = 1
       \<and> fileIsListed e fileName configPath s =
           (case getListFiles e (dirname e configPath) of
              None \<Rightarrow>
                \<lparr>result = Inl ToolUnavailable,
                 after = s\<lparr>CONFIG_CACHE := (CONFIG_CACHE s)(configPath \<mapsto> t)\<rparr>,
                 listings = 1\<rparr>
            | Some files \<Rightarrow>
                \<lparr>result = Inr (fileName \<in> set files),
                 after = \<lparr>CONFIG_CACHE = (CONFIG_CACHE s)(configPath \<mapsto> t),
                          CACHE = (\<lambda>k. if k = fileName
                                        then Some \<lparr>entry_configPath = configPath,
                                                   entry_found = fileName \<in> set files\<rparr>
                                        else if k \<in> set files
                                        then Some \<lparr>entry_configPath = configPath,
                                                   entry_found = True\<rparr>
                                        else CACHE s k)\<rparr>,
                 listings = 1\<rparr>)"
proof -
  have miss: "cache_lookup s fileName configPath t = None"
    using assms(2) by (auto simp: cache_lookup_None_iff)
  show ?thesis
  proof (cases "getListFiles e (dirname e configPath)")
    case None
    from fileIsListed_miss_fails [OF assms(1) miss None] None show ?thesis by simp
  next
    case (Some files)
    from fileIsListed_miss_lists [OF assms(1) miss Some] Some show ?thesis by simp
  qed
qed

theorem miss_lists_exactly_once_witness:
  "stat_mtimeMs (world 2000 (Some [''/p/a.ts'', ''/p/b.ts''])) ''/p/tsconfig.json'' = Some 2000
   \<and> stat_mtimeMs (world 2000 (Some [''/p/a.ts''])) ''/p/tsconfig.json'' = Some 2000
   \<and> stat_mtimeMs (world 2000 None) ''/p/tsconfig.json'' = Some 2000
   \<and> CONFIG_CACHE \<lparr>CONFIG_CACHE = [''/p/tsconfig.json'' \<mapsto> 1000],
        CACHE = [''/p/b.ts'' \<mapsto> \<lparr>entry_configPath = ''/p/tsconfig.json'', entry_found = True\<rparr>]\<rparr>
        ''/p/tsconfig.json'' \<noteq> Some 2000
   \<and> fileIsListed (world 2000 (Some [''/p/a.ts'', ''/p/b.ts''])) ''/p/b.ts'' ''/p/tsconfig.json''
        \<lparr>CONFIG_CACHE = [''/p/tsconfig.json'' \<mapsto> 1000],
         CACHE = [''/p/b.ts'' \<mapsto> \<lparr>entry_configPath = ''/p/tsconfig.json'', entry_found = True\<rparr>]\<rparr>
     = \<lparr>result = Inr True,
        after = \<lparr>CONFIG_CACHE = [''/p/tsconfig.json'' \<mapsto> 2000],
                 CACHE = [''/p/a.ts'' \<mapsto> \<lparr>entry_configPath = ''/p/tsconfig.json'', entry_found = True\<rparr>,
                          ''/p/b.ts'' \<mapsto> \<lparr>entry_configPath = ''/p/tsconfig.json'', entry_found = True\<rparr>]\<rparr>,
        listings = 1\<rparr>
   \<and> fileIsListed (world 2000 (Some [''/p/a.ts''])) ''/p/b.ts'' ''/p/tsconfig.json''
        \<lparr>CONFIG_CACHE = [''/p/tsconfig.json'' \<mapsto> 1000],
         CACHE = [''/p/b.ts'' \<mapsto> \<lparr>entry_configPath = ''/p/tsconfig.json'', entry_found = True\<rparr>]\<rparr>
     = \<lparr>result = Inr False,
        after = \<lparr>CONFIG_CACHE = [''/p/tsconfig.json'' \<mapsto> 2000],
                 CACHE = [''/p/a.ts'' \<mapsto> \<lparr>entry_configPath = ''/p/tsconfig.json'', entry_found = True\<rparr>,
                          ''/p/b.ts'' \<mapsto> \<lparr>entry_configPath = ''/p/tsconfig.json'', entry_found = False\<rparr>]\<rparr>,
        listings = 1\<rparr>
   \<and> fileIsListed (world 2000 None) ''/p/b.ts'' ''/p/tsconfig.json''
        \<lparr>CONFIG_CACHE = [''/p/tsconfig.json'' \<mapsto> 1000],
         CACHE = [''/p/b.ts'' \<mapsto> \<lparr>entry_configPath = ''/p/tsconfig.json'', entry_found = True\<rparr>]\<rparr>
     = \<lparr>result = Inl ToolUnavailable,
        after = \<lparr>CONFIG_CACHE = [''/p/tsconfig.json'' \<mapsto> 2000],
                 CACHE = [''/p/b.ts'' \<mapsto> \<lparr>entry_configPath = ''/p/tsconfig.json'', entry_found = True\<rparr>]\<rparr>,
        listings = 1\<rparr>"
proof -
  let ?s = "\<lparr>CONFIG_CACHE = [''/p/tsconfig.json'' \<mapsto> 1000],
        CACHE = [''/p/b.ts'' \<mapsto> \<lparr>entry_configPath = ''/p/tsconfig.json'', entry_found = True\<rparr>]\<rparr>"
  have h1: "stat_mtimeMs (world 2000 listing) ''/p/tsconfig.json'' = Some 2000" for listing
    by (simp add: world_def)
  have h2: "CONFIG_CACHE ?s ''/p/tsconfig.json'' \<noteq> Some 2000"
    by simp
  have l: "getListFiles (world 2000 listing) (dirname (world 2000 listing) ''/p/tsconfig.json'')
             = listing" for listing
    by (simp add: world_def)
  note inst = miss_lists_exactly_once [OF h1 disjI1 [OF h2], of _ "''/p/b.ts''", unfolded l]
  have both: "fileIsListed (world 2000 (Some [''/p/a.ts'', ''/p/b.ts''])) ''/p/b.ts''
        ''/p/tsconfig.json'' ?s
     = \<lparr>result = Inr True,
        after = \<lparr>CONFIG_CACHE = [''/p/tsconfig.json'' \<mapsto> 2000],
                 CACHE = [''/p/a.ts'' \<mapsto> \<lparr>entry_configPath = ''/p/tsconfig.json'', entry_found = True\<rparr>,
                          ''/p/b.ts'' \<mapsto> \<lparr>entry_configPath = ''/p/tsconfig.json'', entry_found = True\<rparr>]\<rparr>,
        listings = 1\<rparr>"
    using inst [of "Some [''/p/a.ts'', ''/p/b.ts'']"] by (auto intro!: ext)
  have other: "fileIsListed (world 2000 (Some [''/p/a.ts''])) ''/p/b.ts'' ''/p/tsconfig.json'' ?s
     = \<lparr>result = Inr False,
        after = \<lparr>CONFIG_CACHE = [''/p/tsconfig.json'' \<mapsto> 2000],
                 CACHE = [''/p/a.ts'' \<mapsto> \<lparr>entry_configPath = ''/p/tsconfig.json'', entry_found = True\<rparr>,
                          ''/p/b.ts'' \<mapsto> \<lparr>entry_configPath = ''/p/tsconfig.json'', entry_found = False\<rparr>]\<rparr>,
        listings = 1\<rparr>"
    using inst [of "Some [''/p/a.ts'']"] by (auto intro!: ext)
  have failed: "fileIsListed (world 2000 None) ''/p/b.ts'' ''/p/tsconfig.json'' ?s
     = \<lparr>result = Inl ToolUnavailable,
        after = \<lparr>CONFIG_CACHE = [''/p/tsconfig.json'' \<mapsto> 2000],
                 CACHE = [''/p/b.ts'' \<mapsto> \<lparr>entry_configPath = ''/p/tsconfig.json'', entry_found = True\<rparr>]\<rparr>,
        listings = 1\<rparr>"
    using inst [of None] by simp
  from h1 h2 both other failed show ?thesis by blast
qed

text \<open>
  Claim C9. Given that the configuration can be read, a call answers from the cache
  (no listing) exactly when the file has an entry under that configuration and the
  timestamp stored for the configuration is equal to the current one. There is no
  tolerance: a stored timestamp that differs from the current one by any amount other
  than zero sends the call to the listing.
\<close>

theorem hit_iff_timestamps_equal:
  assumes "stat_mtimeMs e configPath = Some t"
  shows "((listings (fileIsListed e fileName configPath s) = 0) =
            ((\<exists>entry. CACHE s fileName = Some entry \<and> entry_configPath entry = configPath)
             \<and> CONFIG_CACHE s configPath = Some t))
       \<and> (\<forall>d. d \<noteq> 0 \<and> CONFIG_CACHE s configPath = Some (t + d)
             \<longrightarrow> listings (fileIsListed e fileName configPath s) = 1)"
proof -
  have iff: "(listings (fileIsListed e fileName configPath s) = 0) =
            ((\<exists>entry. CACHE s fileName = Some entry \<and> entry_configPath entry = configPath)
             \<and> CONFIG_CACHE s configPath = Some t)"
  proof (cases "cache_lookup s fileName configPath t")
    case None
    from fileIsListed_miss_listings [OF assms None] None show ?thesis
      by (auto simp: cache_lookup_None_iff)
  next
    case (Some b)
    from fileIsListed_hit [OF assms Some] Some show ?thesis
      by (auto simp: cache_lookup_Some_iff)
  qed
  have "listings (fileIsListed e fileName configPath s) = 1"
    if "d \<noteq> 0" and "CONFIG_CACHE s configPath = Some (t + d)" for d
  proof -
    have "cache_lookup s fileName configPath t = None"
      using that by (simp add: cache_lookup_None_iff)
    from fileIsListed_miss_listings [OF assms this] show ?thesis .
  qed
  with iff show ?thesis by blast
qed

theorem hit_iff_timestamps_equal_witness:
  "stat_mtimeMs (world (1000 + 1 / 1000) (Some [''/p/b.ts''])) ''/p/tsconfig.json''
     = Some (1000 + 1 / 1000)
   \<and> listings (fileIsListed (world (1000 + 1 / 1000) (Some [''/p/b.ts''])) ''/p/b.ts''
        ''/p/tsconfig.json''
        \<lparr>CONFIG_CACHE = [''/p/tsconfig.json'' \<mapsto> 1000],
         CACHE = [''/p/b.ts'' \<mapsto> \<lparr>entry_configPath = ''/p/tsconfig.json'', entry_found = True\<rparr>]\<rparr>)
     \<noteq> 0
   \<and> listings (fileIsListed (world (1000 + 1 / 1000) (Some [''/p/b.ts''])) ''/p/b.ts''
        ''/p/tsconfig.json''
        \<lparr>CONFIG_CACHE = [''/p/tsconfig.json'' \<mapsto> 1000 + 1 / 1000],
         CACHE = [''/p/b.ts'' \<mapsto> \<lparr>entry_configPath = ''/p/tsconfig.json'', entry_found = True\<rparr>]\<rparr>)
     = 0"
proof -
  let ?e = "world (1000 + 1 / 1000) (Some [''/p/b.ts''])"
  have h: "stat_mtimeMs ?e ''/p/tsconfig.json'' = Some (1000 + 1 / 1000)"
    by (simp add: world_def)
  note inst = hit_iff_timestamps_equal [OF h, of "''/p/b.ts''"]
  from inst [of "\<lparr>CONFIG_CACHE = [''/p/tsconfig.json'' \<mapsto> 1000],
         CACHE = [''/p/b.ts'' \<mapsto> \<lparr>entry_configPath = ''/p/tsconfig.json'', entry_found = True\<rparr>]\<rparr>"]
  have miss: "listings (fileIsListed ?e ''/p/b.ts'' ''/p/tsconfig.json''
        \<lparr>CONFIG_CACHE = [''/p/tsconfig.json'' \<mapsto> 1000],
         CACHE = [''/p/b.ts'' \<mapsto> \<lparr>entry_configPath = ''/p/tsconfig.json'', entry_found = True\<rparr>]\<rparr>)
     \<noteq> 0"
    by simp
  from inst [of "\<lparr>CONFIG_CACHE = [''/p/tsconfig.json'' \<mapsto> 1000 + 1 / 1000],
         CACHE = [''/p/b.ts'' \<mapsto> \<lparr>entry_configPath = ''/p/tsconfig.json'', entry_found = True\<rparr>]\<rparr>"]
  have hit: "listings (fileIsListed ?e ''/p/b.ts'' ''/p/tsconfig.json''
        \<lparr>CONFIG_CACHE = [''/p/tsconfig.json'' \<mapsto> 1000 + 1 / 1000],
         CACHE = [''/p/b.ts'' \<mapsto> \<lparr>entry_configPath = ''/p/tsconfig.json'', entry_found = True\<rparr>]\<rparr>)
     = 0"
    by simp
  from h miss hit show ?thesis by blast
qed

text \<open>
  Claim C10. The loop of lines 61-67 writes only entries whose \<open>found\<close> is true: any
  entry it adds or changes has \<open>found = true\<close>. Hence, after any sequence of calls
  starting from the empty maps, every entry whose \<open>found\<close> is false belongs to a path
  that was the \<open>fileName\<close> argument of one of those calls.
\<close>

theorem false_entries_were_queried:
  "(\<forall>k entry. snd (warm fileName configPath files (found, cache)) k = Some entry
        \<and> cache k \<noteq> Some entry \<longrightarrow> entry_found entry)
   \<and> (\<forall>k entry. CACHE (run calls initial_state) k = Some entry \<and> \<not> entry_found entry
        \<longrightarrow> k \<in> queried calls)"
proof -
  have "\<forall>k entry. CACHE initial_state k = Some entry \<and> \<not> entry_found entry \<longrightarrow> k \<in> {}"
    by (simp add: initial_state_def)
  from run_false_entries [OF this]
  have "\<forall>k entry. CACHE (run calls initial_state) k = Some entry \<and> \<not> entry_found entry
        \<longrightarrow> k \<in> queried calls"
    by auto
  moreover have "\<forall>k entry. snd (warm fileName configPath files (found, cache)) k = Some entry
        \<and> cache k \<noteq> Some entry \<longrightarrow> entry_found entry"
    by (auto simp: warm_cache split: if_splits)
  ultimately show ?thesis by blast
qed

theorem false_entries_were_queried_witness:
  "snd (warm ''/p/b.ts'' ''/p/tsconfig.json'' [''/p/a.ts''] (False, Map.empty)) ''/p/a.ts''
     = Some \<lparr>entry_configPath = ''/p/tsconfig.json'', entry_found = True\<rparr>
   \<and> (Map.empty :: string \<rightharpoonup> cache_entry) ''/p/a.ts''
       \<noteq> Some \<lparr>entry_configPath = ''/p/tsconfig.json'', entry_found = True\<rparr>
   \<and> entry_found \<lparr>entry_configPath = ''/p/tsconfig.json'', entry_found = True\<rparr>
   \<and> CACHE (run [(world 1000 (Some [''/p/a.ts'']), ''/p/b.ts'', ''/p/tsconfig.json'')]
        initial_state) ''/p/b.ts''
     = Some \<lparr>entry_configPath = ''/p/tsconfig.json'', entry_found = False\<rparr>
   \<and> \<not> entry_found \<lparr>entry_configPath = ''/p/tsconfig.json'', entry_found = False\<rparr>
   \<and> ''/p/b.ts'' \<in> queried [(world 1000 (Some [''/p/a.ts'']), ''/p/b.ts'', ''/p/tsconfig.json'')]"
proof -
  let ?calls = "[(world 1000 (Some [''/p/a.ts'']), ''/p/b.ts'', ''/p/tsconfig.json'')]"
  have w: "snd (warm ''/p/b.ts'' ''/p/tsconfig.json'' [''/p/a.ts''] (False, Map.empty)) ''/p/a.ts''
     = Some \<lparr>entry_configPath = ''/p/tsconfig.json'', entry_found = True\<rparr>"
    by simp
  have r: "CACHE (run ?calls initial_state) ''/p/b.ts''
     = Some \<lparr>entry_configPath = ''/p/tsconfig.json'', entry_found = False\<rparr>"
    by (simp add: fileIsListed_def world_def initial_state_def cache_lookup_def)
  from false_entries_were_queried [of "''/p/b.ts''" "''/p/tsconfig.json''" "[''/p/a.ts'']"
      False Map.empty ?calls]
  have "''/p/b.ts'' \<in> queried ?calls"
    using r by (metis cache_entry.select_convs(2))
  with w r show ?thesis by simp
qed

section \<open>Facts about the path matcher\<close>

text \<open>
  The loop of lines 113-120, entered at position \<open>i\<close> with \<open>score\<close> counted so far, adds
  the number of aligned positions from \<open>i\<close> on that agree before the first that differs.
\<close>

lemma score_loop_drop:
  assumes "len = min (length x) (length y)" and "i \<le> len"
  shows "score_loop x y len i sc =
           sc + length (takeWhile (\<lambda>(a, b). a = b) (drop i (zip (rev x) (rev y))))"
  using assms
proof (induction x y len i sc rule: score_loop.induct)
  case (1 pBase cBase len i score)
  let ?zs = "zip (rev pBase) (rev cBase)"
  have len: "length ?zs = len" using "1.prems"(1) by simp
  show ?case
  proof (cases "i < len")
    case False
    then have "drop i ?zs = []" using len by simp
    with False show ?thesis by (simp add: score_loop.simps)
  next
    case True
    then have ip: "i < length pBase" and ic: "i < length cBase" using "1.prems"(1) by simp_all
    have nth: "?zs ! i = (pBase ! (length pBase - 1 - i), cBase ! (length cBase - 1 - i))"
      using ip ic by (simp add: rev_nth)
    have "i < length ?zs" using True len by simp
    then have drop: "drop i ?zs = ?zs ! i # drop (i + 1) ?zs"
      using Cons_nth_drop_Suc [of i ?zs] by simp
    show ?thesis
    proof (cases "pBase ! (length pBase - 1 - i) = cBase ! (length cBase - 1 - i)")
      case False
      with True show ?thesis
        by (subst score_loop.simps) (simp add: drop nth)
    next
      case eq: True
      have "score_loop pBase cBase len (i + 1) (score + 1) =
              score + 1 + length (takeWhile (\<lambda>(a, b). a = b) (drop (i + 1) ?zs))"
        using "1.IH" [OF True eq "1.prems"(1)] True by simp
      with True eq show ?thesis
        by (subst score_loop.simps) (simp add: drop nth)
    qed
  qed
qed

lemma candidate_score_suffix_alignment:
  "candidate_score extname p c = suffix_alignment (removeExt extname p) (removeExt extname c)"
  by (simp add: candidate_score_def suffix_alignment_def Let_def score_loop_drop)

text \<open>
  The sort keeps the length, puts the scores in descending order and keeps candidates
  of equal score in their input order.
\<close>

lemma length_insert_sorted: "length (insert_sorted cmp x ys) = Suc (length ys)"
  by (induction ys) simp_all

lemma length_array_sort: "length (array_sort cmp xs) = length xs"
  by (induction xs) (simp_all add: length_insert_sorted)

lemma hd_insert_sorted:
  "ys \<noteq> [] \<Longrightarrow> hd (insert_sorted cmp x ys) = (if cmp x (hd ys) \<le> 0 then x else hd ys)"
  by (cases ys) simp_all

lemma compare_scored_le: "compare_scored x y \<le> 0 \<longleftrightarrow> cand_score y \<le> cand_score x"
  by (simp add: compare_scored_def)

lemma filter_insert_sorted:
  "filter (\<lambda>a. cand_score a = k) (insert_sorted compare_scored x ys) =
     (if cand_score x = k then x # filter (\<lambda>a. cand_score a = k) ys
      else filter (\<lambda>a. cand_score a = k) ys)"
  by (induction ys) (auto simp: compare_scored_le)

lemma array_sort_stable:
  "filter (\<lambda>a. cand_score a = k) (array_sort compare_scored xs) =
     filter (\<lambda>a. cand_score a = k) xs"
  by (induction xs) (simp_all add: filter_insert_sorted)

lemma set_insert_sorted: "set (insert_sorted cmp x ys) = insert x (set ys)"
  by (induction ys) auto

lemma sorted_insert_sorted:
  "sorted_wrt (\<lambda>a b. cand_score b \<le> cand_score a) ys \<Longrightarrow>
   sorted_wrt (\<lambda>a b. cand_score b \<le> cand_score a) (insert_sorted compare_scored x ys)"
  by (induction ys) (auto simp: compare_scored_le set_insert_sorted)

lemma array_sort_descending:
  "sorted_wrt (\<lambda>a b. cand_score b \<le> cand_score a) (array_sort compare_scored xs)"
  by (induction xs) (simp_all add: sorted_insert_sorted)

text \<open>
  The first element after sorting: the earliest one among those of highest score.
\<close>

lemma hd_array_sort:
  "arr \<noteq> [] \<Longrightarrow>
   \<exists>i<length arr. hd (array_sort compare_scored arr) = arr ! i
      \<and> (\<forall>j<length arr. cand_score (arr ! j) \<le> cand_score (arr ! i))
      \<and> (\<forall>j<i. cand_score (arr ! j) < cand_score (arr ! i))"
proof (induction arr)
  case Nil
  then show ?case by simp
next
  case (Cons x xs)
  show ?case
  proof (cases "xs = []")
    case True
    then show ?thesis by simp
  next
    case False
    from Cons.IH [OF False] obtain i where i: "i < length xs"
      and hd: "hd (array_sort compare_scored xs) = xs ! i"
      and mx: "\<forall>j<length xs. cand_score (xs ! j) \<le> cand_score (xs ! i)"
      and fst: "\<forall>j<i. cand_score (xs ! j) < cand_score (xs ! i)"
      by blast
    have ne: "array_sort compare_scored xs \<noteq> []"
      using False length_array_sort [of compare_scored xs] by auto
    show ?thesis
    proof (cases "cand_score (xs ! i) \<le> cand_score x")
      case True
      then have "hd (array_sort compare_scored (x # xs)) = (x # xs) ! 0"
        by (simp add: hd_insert_sorted [OF ne] hd compare_scored_le)
      moreover have "\<forall>j<length (x # xs). cand_score ((x # xs) ! j) \<le> cand_score ((x # xs) ! 0)"
      proof (intro allI impI)
        fix j assume "j < length (x # xs)"
        then show "cand_score ((x # xs) ! j) \<le> cand_score ((x # xs) ! 0)"
          using mx True by (cases j) (auto intro: order_trans)
      qed
      ultimately show ?thesis by (intro exI [of _ 0]) simp
    next
      case False
      then have lt: "cand_score x < cand_score (xs ! i)" by simp
      then have "hd (array_sort compare_scored (x # xs)) = (x # xs) ! Suc i"
        by (simp add: hd_insert_sorted [OF ne] hd compare_scored_le)
      moreover have "\<forall>j<length (x # xs). cand_score ((x # xs) ! j) \<le> cand_score ((x # xs) ! Suc i)"
      proof (intro allI impI)
        fix j assume "j < length (x # xs)"
        then show "cand_score ((x # xs) ! j) \<le> cand_score ((x # xs) ! Suc i)"
          using mx lt by (cases j) auto
      qed
      moreover have "\<forall>j<Suc i. cand_score ((x # xs) ! j) < cand_score ((x # xs) ! Suc i)"
      proof (intro allI impI)
        fix j assume "j < Suc i"
        then show "cand_score ((x # xs) ! j) < cand_score ((x # xs) ! Suc i)"
          using fst lt by (cases j) auto
      qed
      ultimately show ?thesis using i by (intro exI [of _ "Suc i"]) simp
    qed
  qed
qed

lemma getMostSimilarPath_hd:
  "getMostSimilarPath extname p ps =
     (if ps = [] then Inl TypeError
      else Inr (cand_path (hd (array_sort compare_scored
             (map (\<lambda>c. \<lparr>cand_path = c, cand_score = candidate_score extname p c\<rparr>) ps)))))"
proof (cases ps)
  case Nil
  then show ?thesis by (simp add: getMostSimilarPath_def)
next
  case (Cons c cs)
  let ?arr = "map (\<lambda>c. \<lparr>cand_path = c, cand_score = candidate_score extname p c\<rparr>) ps"
  have "length (array_sort compare_scored ?arr) = length ps"
    by (simp add: length_array_sort)
  then obtain a as where "array_sort compare_scored ?arr = a # as"
    using Cons by (cases "array_sort compare_scored ?arr") auto
  then show ?thesis using Cons by (simp add: getMostSimilarPath_def)
qed

section \<open>Claims about the path matcher\<close>

text \<open>
  Claim C6. The score the code gives a candidate is the suffix-alignment score of the
  reference and the candidate after \<open>removeExt\<close>: the number of aligned characters,
  counted from the last one backward, that agree before the first mismatch. A path for
  which \<open>extname\<close> is empty is compared as it is, and when \<open>extname\<close> returns an ending
  of the path, \<open>removeExt\<close> is the path without that ending. With the reference
  \<open>/p/src/foo.ts\<close> and the candidates \<open>/p/out/foo.js\<close>, \<open>/p/out/bar.js\<close> the result is
  \<open>/p/out/foo.js\<close>.
\<close>

theorem score_is_suffix_alignment:
  "candidate_score extname p c = suffix_alignment (removeExt extname p) (removeExt extname c)
   \<and> (extname c = [] \<longrightarrow> removeExt extname c = c)
   \<and> ((\<exists>stem. c = stem @ extname c) \<longrightarrow> removeExt extname c @ extname c = c)
   \<and> getMostSimilarPath posix_extname ''/p/src/foo.ts'' [''/p/out/foo.js'', ''/p/out/bar.js'']
       = Inr ''/p/out/foo.js''"
proof -
  have "removeExt extname c @ extname c = c" if "c = stem @ extname c" for stem
  proof -
    have "removeExt extname c = stem"
      using that
      by (metis removeExt_def append_eq_conv_conj length_append add_diff_cancel_right')
    then show ?thesis using that by simp
  qed
  moreover have "getMostSimilarPath posix_extname ''/p/src/foo.ts''
      [''/p/out/foo.js'', ''/p/out/bar.js''] = Inr ''/p/out/foo.js''"
    by code_simp
  ultimately show ?thesis
    by (auto simp: candidate_score_suffix_alignment removeExt_def)
qed

theorem score_is_suffix_alignment_witness:
  "posix_extname ''/p/out/Makefile'' = []
   \<and> removeExt posix_extname ''/p/out/Makefile'' = ''/p/out/Makefile''
   \<and> (\<exists>stem. ''/p/out/foo.js'' = stem @ posix_extname ''/p/out/foo.js'')
   \<and> removeExt posix_extname ''/p/out/foo.js'' @ posix_extname ''/p/out/foo.js''
       = ''/p/out/foo.js''
   \<and> candidate_score posix_extname ''/p/src/foo.ts'' ''/p/out/foo.js''
       = suffix_alignment ''/p/src/foo'' ''/p/out/foo''
   \<and> suffix_alignment ''/p/src/foo'' ''/p/out/foo'' = 4"
proof -
  have e1: "posix_extname ''/p/out/Makefile'' = []" by code_simp
  have e2: "posix_extname ''/p/out/foo.js'' = ''.js''" by code_simp
  have e3: "posix_extname ''/p/src/foo.ts'' = ''.ts''" by code_simp
  have h2: "\<exists>stem. ''/p/out/foo.js'' = stem @ posix_extname ''/p/out/foo.js''"
    unfolding e2 by (rule exI [of _ "''/p/out/foo''"]) simp
  note a = score_is_suffix_alignment [of posix_extname "''/p/src/foo.ts''" "''/p/out/Makefile''"]
  note b = score_is_suffix_alignment [of posix_extname "''/p/src/foo.ts''" "''/p/out/foo.js''"]
  have r1: "removeExt posix_extname ''/p/out/Makefile'' = ''/p/out/Makefile''"
    using a e1 by blast
  have r2: "removeExt posix_extname ''/p/out/foo.js'' @ posix_extname ''/p/out/foo.js''
       = ''/p/out/foo.js''"
    using b h2 by blast
  have r3: "candidate_score posix_extname ''/p/src/foo.ts'' ''/p/out/foo.js''
       = suffix_alignment (removeExt posix_extname ''/p/src/foo.ts'')
           (removeExt posix_extname ''/p/out/foo.js'')"
    using b by blast
  have s1: "removeExt posix_extname ''/p/src/foo.ts'' = ''/p/src/foo''"
    by (simp add: removeExt_def e3)
  have s2: "removeExt posix_extname ''/p/out/foo.js'' = ''/p/out/foo''"
    by (simp add: removeExt_def e2)
  have v: "suffix_alignment ''/p/src/foo'' ''/p/out/foo'' = 4"
    by (simp add: suffix_alignment_def)
  from e1 r1 h2 r2 r3 v show ?thesis unfolding s1 s2 by blast
qed

text \<open>
  Claim C7. For a non-empty candidate list the function returns a candidate whose score
  no other candidate exceeds, and every candidate before it in the input has a strictly
  smaller score: among the candidates of highest score it is the first. When every
  candidate scores 0 the result is the first candidate, not an error.
\<close>

theorem best_match_first_highest:
  assumes "ps \<noteq> []"
  shows "(\<exists>i<length ps. getMostSimilarPath extname p ps = Inr (ps ! i)
           \<and> (\<forall>j<length ps. candidate_score extname p (ps ! j) \<le> candidate_score extname p (ps ! i))
           \<and> (\<forall>j<i. candidate_score extname p (ps ! j) < candidate_score extname p (ps ! i)))
       \<and> ((\<forall>c \<in> set ps. candidate_score extname p c = 0)
            \<longrightarrow> getMostSimilarPath extname p ps = Inr (hd ps))"
proof -
  let ?arr = "map (\<lambda>c. \<lparr>cand_path = c, cand_score = candidate_score extname p c\<rparr>) ps"
  have "?arr \<noteq> []" using assms by simp
  from hd_array_sort [OF this] obtain i where i: "i < length ps"
    and hd: "hd (array_sort compare_scored ?arr) = ?arr ! i"
    and mx: "\<forall>j<length ps. cand_score (?arr ! j) \<le> cand_score (?arr ! i)"
    and fst: "\<forall>j<i. cand_score (?arr ! j) < cand_score (?arr ! i)"
    by auto
  have res: "getMostSimilarPath extname p ps = Inr (ps ! i)"
    using assms i by (simp add: getMostSimilarPath_hd hd)
  have mx': "\<forall>j<length ps. candidate_score extname p (ps ! j) \<le> candidate_score extname p (ps ! i)"
    using mx i by simp
  have fst': "\<forall>j<i. candidate_score extname p (ps ! j) < candidate_score extname p (ps ! i)"
    using fst i by simp
  have zero: "getMostSimilarPath extname p ps = Inr (hd ps)"
    if all: "\<forall>c \<in> set ps. candidate_score extname p c = 0"
  proof -
    have "i = 0"
    proof (rule ccontr)
      assume "i \<noteq> 0"
      then have "candidate_score extname p (ps ! 0) < candidate_score extname p (ps ! i)"
        using fst' by simp
      moreover have "candidate_score extname p (ps ! i) = 0" using all i by simp
      ultimately show False by simp
    qed
    then show ?thesis using res assms by (simp add: hd_conv_nth)
  qed
  from res mx' fst' i zero show ?thesis by blast
qed

theorem best_match_first_highest_witness:
  "[''/x/q.js'', ''/y/q.js''] \<noteq> []
   \<and> candidate_score posix_extname ''/a/z.ts'' ''/x/q.js'' = 0
   \<and> candidate_score posix_extname ''/a/z.ts'' ''/y/q.js'' = 0
   \<and> getMostSimilarPath posix_extname ''/a/z.ts'' [''/x/q.js'', ''/y/q.js''] = Inr ''/x/q.js''
   \<and> [''/p/out/bar.js'', ''/p/out/foo.js'', ''/q/out/foo.js''] \<noteq> []
   \<and> getMostSimilarPath posix_extname ''/p/src/foo.ts''
        [''/p/out/bar.js'', ''/p/out/foo.js'', ''/q/out/foo.js'']
       = Inr ([''/p/out/bar.js'', ''/p/out/foo.js'', ''/q/out/foo.js''] ! 1)
   \<and> candidate_score posix_extname ''/p/src/foo.ts''
        ([''/p/out/bar.js'', ''/p/out/foo.js'', ''/q/out/foo.js''] ! 0)
       < candidate_score posix_extname ''/p/src/foo.ts''
        ([''/p/out/bar.js'', ''/p/out/foo.js'', ''/q/out/foo.js''] ! 1)
   \<and> candidate_score posix_extname ''/p/src/foo.ts''
        ([''/p/out/bar.js'', ''/p/out/foo.js'', ''/q/out/foo.js''] ! 2)
       \<le> candidate_score posix_extname ''/p/src/foo.ts''
        ([''/p/out/bar.js'', ''/p/out/foo.js'', ''/q/out/foo.js''] ! 1)"
proof -
  have h: "[''/x/q.js'', ''/y/q.js''] \<noteq> []" by simp
  have z1: "candidate_score posix_extname ''/a/z.ts'' ''/x/q.js'' = 0" by code_simp
  have z2: "candidate_score posix_extname ''/a/z.ts'' ''/y/q.js'' = 0" by code_simp
  have z: "\<forall>c \<in> set [''/x/q.js'', ''/y/q.js'']. candidate_score posix_extname ''/a/z.ts'' c = 0"
    by (simp add: z1 z2)
  from best_match_first_highest [OF h, of posix_extname "''/a/z.ts''"] z
  have tie: "getMostSimilarPath posix_extname ''/a/z.ts'' [''/x/q.js'', ''/y/q.js'']
               = Inr ''/x/q.js''"
    by simp
  let ?ps = "[''/p/out/bar.js'', ''/p/out/foo.js'', ''/q/out/foo.js'']"
  have h': "?ps \<noteq> []" by simp
  from best_match_first_highest [OF h', of posix_extname "''/p/src/foo.ts''"]
  obtain i where i: "i < length ?ps"
    and ri: "getMostSimilarPath posix_extname ''/p/src/foo.ts'' ?ps = Inr (?ps ! i)"
    and mi: "\<forall>j<length ?ps. candidate_score posix_extname ''/p/src/foo.ts'' (?ps ! j)
                   \<le> candidate_score posix_extname ''/p/src/foo.ts'' (?ps ! i)"
    and fi: "\<forall>j<i. candidate_score posix_extname ''/p/src/foo.ts'' (?ps ! j)
                   < candidate_score posix_extname ''/p/src/foo.ts'' (?ps ! i)"
    by blast
  have val: "getMostSimilarPath posix_extname ''/p/src/foo.ts'' ?ps = Inr ''/p/out/foo.js''"
    by code_simp
  have "i = 0 \<or> i = 1 \<or> i = 2" using i by auto
  moreover have "?ps ! i = ''/p/out/foo.js''" using ri val by simp
  ultimately have i1: "i = 1" by auto
  have r: "getMostSimilarPath posix_extname ''/p/src/foo.ts'' ?ps = Inr (?ps ! 1)"
    using ri i1 by simp
  have lt: "candidate_score posix_extname ''/p/src/foo.ts'' (?ps ! 0)
              < candidate_score posix_extname ''/p/src/foo.ts'' (?ps ! 1)"
    using fi i1 by blast
  have "(2::nat) < length ?ps" by simp
  then have le: "candidate_score posix_extname ''/p/src/foo.ts'' (?ps ! 2)
              \<le> candidate_score posix_extname ''/p/src/foo.ts'' (?ps ! 1)"
    using mi i1 by blast
  from h z1 z2 tie h' r lt le show ?thesis by blast
qed

text \<open>
  Claim C8, as the code has it. With an empty candidate list \<open>arr\<close> stays empty,
  \<open>arr[0]\<close> is \<open>undefined\<close> and line 133 throws a \<open>TypeError\<close>, whatever the reference
  path and whatever \<open>path.extname\<close> does. The call fails, but not with
  \<open>InvalidArgument\<close>.
\<close>

theorem empty_candidates_TypeError:
  "getMostSimilarPath extname p [] = Inl TypeError"
  by (simp add: getMostSimilarPath_def)

text \<open>
  Claim C8 as stated fails at the reference \<open>/p/src/foo.ts\<close> with no candidates: the
  failure is not \<open>InvalidArgument\<close>.
\<close>

theorem empty_candidates_not_InvalidArgument:
  "getMostSimilarPath posix_extname ''/p/src/foo.ts'' [] \<noteq> Inl InvalidArgument"
  by (simp add: getMostSimilarPath_def)

end
